theory Spec2Isabelle
  imports Main
begin

section \<open>Python values, exceptions and list access\<close>

text \<open>
  The exceptions the modelled code can meet. \<open>IndexError\<close> and \<open>ZeroDivisionError\<close> are
  raised by the interpreter (list indexing, \<open>//\<close>); \<open>FileNotFoundError\<close> and
  \<open>UnidentifiedImageError\<close> by \<open>Image.open\<close> (they carry the path); \<open>AttributeError\<close>,
  \<open>EOFError\<close> and \<open>OSError\<close> by an opened image that cannot be read further (they carry
  their message); \<open>StructError\<close> by the GIF writer for a duration it cannot store.
  \<open>RaisedByAgent\<close> stands for whatever the external agent raises, with the text \<open>str(e)\<close>
  gives for it.
\<close>

datatype exception =
    IndexError
  | ZeroDivisionError
  | FileNotFoundError string
  | UnidentifiedImageError string
  | AttributeError string
  | EOFError string
  | OSError string
  | StructError
  | RaisedByAgent string

definition repr_str :: "string \<Rightarrow> string" where
  "repr_str p = [CHR 0x27] @ p @ [CHR 0x27]"

fun str_exception :: "exception \<Rightarrow> string" where
  "str_exception IndexError = ''list index out of range''"
| "str_exception ZeroDivisionError = ''integer division or modulo by zero''"
| "str_exception (FileNotFoundError p) = ''[Errno 2] No such file or directory: '' @ repr_str p"
| "str_exception (UnidentifiedImageError p) = ''cannot identify image file '' @ repr_str p"
| "str_exception (AttributeError msg) = msg"
| "str_exception (EOFError msg) = msg"
| "str_exception (OSError msg) = msg"
| "str_exception StructError = repr_str ''H'' @ '' format requires 0 <= number <= 65535''"
| "str_exception (RaisedByAgent msg) = msg"

text \<open>
  \<open>xs[i]\<close>: a negative index counts from the end, and an index outside the list raises.
\<close>

definition py_getitem :: "'a list \<Rightarrow> int \<Rightarrow> exception + 'a" where
  "py_getitem xs i =
     (let j = (if i < 0 then i + int (length xs) else i)
      in if j < 0 \<or> int (length xs) \<le> j then Inl IndexError else Inr (xs ! nat j))"

text \<open>\<open>a // b\<close> on Python ints: floor division, raising on a zero divisor.\<close>

definition py_floordiv :: "int \<Rightarrow> int \<Rightarrow> exception + int" where
  "py_floordiv a b = (if b = 0 then Inl ZeroDivisionError else Inr (a div b))"

text \<open>\<open>d.get(k, default)\<close> on a dict.\<close>

definition dict_get :: "('k \<rightharpoonup> 'v) \<Rightarrow> 'k \<Rightarrow> 'v \<Rightarrow> 'v" where
  "dict_get d k dflt = (case d k of None \<Rightarrow> dflt | Some v \<Rightarrow> v)"

text \<open>
  A value interpolated into an f-string: a \<open>str\<close>, an \<open>int\<close>, or one of the agent's opaque
  action records. An f-string is kept as its parts, literal text and formatted values in
  order, so that no rendering of an opaque record has to be invented.
\<close>

datatype 'm py = PyStr string | PyInt int | PyObj 'm

datatype 'm fpart = Lit string | Fmt "'m py"

type_synonym 'm fstring = "'m fpart list"

section \<open>The result lists of a run (app.py, lines 133-138)\<close>

record ('e, 'm) history =
  urls :: "string list"
  screenshots :: "string list"
  action_names :: "string list"
  extracted_content :: "string list"
  errors :: "'e list"
  model_actions :: "'m list"

section \<open>The Streamlit page\<close>

text \<open>
  What a Streamlit call puts on the page. The three \<open>st.empty()\<close> placeholders of lines
  71-73 hold at most one element each, and a call on a placeholder replaces what it held;
  every other call appends to the page. \<open>calls\<close> records the external work started so far:
  agent runs (with the task) and GIF transformations (with path and speed factor).
\<close>

datatype ('e, 'm, 'b) element =
    StError "'m fstring"
  | StSuccess "'m fstring"
  | StMarkdown "'m fstring"
  | StDivider
  | StExpander string "('e, 'm, 'b) element list"
  | StJson "('e, 'm) history"
  | StImage 'b string

datatype call = AgentRun string | SpeedUpGif string int

record ('e, 'm, 'b) app =
  final_result_container :: "('e, 'm, 'b) element option"
  agent_history_container :: "('e, 'm, 'b) element option"
  gif_container :: "('e, 'm, 'b) element option"
  page :: "('e, 'm, 'b) element list"
  calls :: "call list"

definition st_add :: "('e, 'm, 'b) element \<Rightarrow> ('e, 'm, 'b) app \<Rightarrow> ('e, 'm, 'b) app" where
  "st_add el s = s\<lparr>page := page s @ [el]\<rparr>"

text \<open>U+274C and U+2705, the two marks of the banners, as their UTF-8 bytes.\<close>

definition cross_mark :: string where
  "cross_mark = [CHR 0xE2, CHR 0x9D, CHR 0x8C]"

definition check_mark :: string where
  "check_mark = [CHR 0xE2, CHR 0x9C, CHR 0x85]"

section \<open>Reconciling and rendering a run (app.py, lines 141-179)\<close>

text \<open>Line 141: \<open>extracted_content_list[-1] if extracted_content_list else "No result"\<close>.\<close>

definition final_extracted :: "('e, 'm) history \<Rightarrow> exception + string" where
  "final_extracted h =
     (if extracted_content h \<noteq> [] then py_getitem (extracted_content h) (- 1)
      else Inr ''No result'')"

text \<open>
  Lines 144-147: the banner written into \<open>final_result_container\<close>. A list is true in
  Python exactly when it is not empty.
\<close>

definition verdict_banner :: "('e, 'm) history \<Rightarrow> string \<Rightarrow> ('e, 'm, 'b) element" where
  "verdict_banner h fe =
     (if errors h \<noteq> [] \<and> ''done'' \<notin> set (action_names h)
      then StError [Lit (cross_mark @ '' Task Failed: ''), Fmt (PyStr fe)]
      else StSuccess [Lit (check_mark @ '' Task Completed Successfully: ''), Fmt (PyStr fe)])"

text \<open>Lines 152-157, the four-argument \<open>max\<close>.\<close>

definition steps_count :: "('e, 'm) history \<Rightarrow> nat" where
  "steps_count h =
     max (length (action_names h))
       (max (length (extracted_content h))
          (max (length (model_actions h)) (length (urls h))))"

text \<open>
  The values one iteration of the loop of lines 158-168 holds: the number shown in the
  heading (\<open>i+1\<close>) and the four locals of lines 160-163.
\<close>

record 'm step =
  step_number :: int
  action :: string
  url :: string
  extracted :: string
  model_action :: "'m py"

text \<open>Lines 160-163, each read guarded by the length of its own list.\<close>

definition step_fields :: "('e, 'm) history \<Rightarrow> nat \<Rightarrow> exception + 'm step" where
  "step_fields h i =
     (case (if i < length (action_names h) then py_getitem (action_names h) (int i)
            else Inr ''N/A'') of
        Inl e \<Rightarrow> Inl e
      | Inr a \<Rightarrow>
     (case (if i < length (urls h) then py_getitem (urls h) (int i) else Inr ''N/A'') of
        Inl e \<Rightarrow> Inl e
      | Inr u \<Rightarrow>
     (case (if i < length (extracted_content h) then py_getitem (extracted_content h) (int i)
            else Inr ''N/A'') of
        Inl e \<Rightarrow> Inl e
      | Inr x \<Rightarrow>
     (case (if i < length (model_actions h)
            then map_sum id PyObj (py_getitem (model_actions h) (int i))
            else Inr (PyStr ''N/A'')) of
        Inl e \<Rightarrow> Inl e
      | Inr m \<Rightarrow>
          Inr \<lparr>step_number = int i + 1, action = a, url = u, extracted = x,
               model_action = m\<rparr>))))"

text \<open>Line 159, the heading of a step.\<close>

definition step_heading :: "nat \<Rightarrow> ('e, 'm, 'b) element" where
  "step_heading i = StMarkdown [Lit ''#### Step '', Fmt (PyInt (int i + 1))]"

text \<open>Lines 164-168, what is put on the page for the locals of one step.\<close>

definition step_lines :: "'m step \<Rightarrow> ('e, 'm, 'b) element list" where
  "step_lines r =
     [StMarkdown [Lit ''**Action:** '', Fmt (PyStr (action r))],
      StMarkdown [Lit ''**URL:** '', Fmt (PyStr (url r))],
      StMarkdown [Lit ''**Extracted Content:** '', Fmt (PyStr (extracted r))],
      StMarkdown [Lit ''**Model Action:** '', Fmt (model_action r)],
      StDivider]"

text \<open>
  The loop of lines 158-168 over the indices still to visit. The heading is on the page
  before the lists are read, so an exception there would leave it behind.
\<close>

fun steps_loop ::
  "('e, 'm) history \<Rightarrow> nat list \<Rightarrow> ('e, 'm, 'b) app \<Rightarrow> ('e, 'm, 'b) app \<times> exception option"
where
  "steps_loop h [] s = (s, None)"
| "steps_loop h (i # rest) s =
     (let s1 = st_add (step_heading i) s
      in case step_fields h i of
           Inl e \<Rightarrow> (s1, Some e)
         | Inr r \<Rightarrow> steps_loop h rest (s1\<lparr>page := page s1 @ step_lines r\<rparr>))"

text \<open>The locals of every iteration, in the order the loop runs: the step records.\<close>

fun collect_steps :: "('e, 'm) history \<Rightarrow> nat list \<Rightarrow> exception + 'm step list" where
  "collect_steps h [] = Inr []"
| "collect_steps h (i # rest) =
     (case step_fields h i of
        Inl e \<Rightarrow> Inl e
      | Inr r \<Rightarrow> (case collect_steps h rest of Inl e \<Rightarrow> Inl e | Inr rs \<Rightarrow> Inr (r # rs)))"

definition steps :: "('e, 'm) history \<Rightarrow> exception + 'm step list" where
  "steps h = collect_steps h [0..<steps_count h]"

text \<open>Lines 171-179, the debug view: the six lists under their names.\<close>

definition debug_view :: "('e, 'm) history \<Rightarrow> ('e, 'm, 'b) element" where
  "debug_view h =
     StExpander ''Debug View''
       [StJson \<lparr>urls = urls h, screenshots = screenshots h, action_names = action_names h,
                extracted_content = extracted_content h, errors = errors h,
                model_actions = model_actions h\<rparr>]"

text \<open>Lines 141-179 in order: summary, banner, the steps, the debug view.\<close>

definition render_outcome ::
  "('e, 'm) history \<Rightarrow> ('e, 'm, 'b) app \<Rightarrow> ('e, 'm, 'b) app \<times> exception option"
where
  "render_outcome h s =
     (case final_extracted h of
        Inl e \<Rightarrow> (s, Some e)
      | Inr fe \<Rightarrow>
          (let s1 = s\<lparr>final_result_container := Some (verdict_banner h fe)\<rparr>;
               s2 = st_add (StMarkdown [Lit ''### Steps'']) s1
           in case steps_loop h [0..<steps_count h] s2 of
                (s3, Some e) \<Rightarrow> (s3, Some e)
              | (s3, None) \<Rightarrow> (st_add (debug_view h) s3, None)))"

section \<open>The GIF speed transformer (app.py, lines 75-95)\<close>

text \<open>
  What the image library makes of a file it opens. Reading goes on after \<open>Image.open\<close>:
  the attribute \<open>n_frames\<close> may be missing (a format of still images only), and \<open>seek\<close> to
  a frame or \<open>copy\<close> of it may raise (a truncated file). \<open>seek img k\<close> is the \<open>info\<close> dict
  the image shows after \<open>img.seek(k)\<close>, and \<open>copy img k\<close> the pixel content \<open>img.copy()\<close>
  gives when the image stands at frame \<open>k\<close>.
\<close>

record 'px image =
  n_frames :: "exception + nat"
  seek :: "nat \<Rightarrow> exception + (string \<rightharpoonup> int)"
  copy :: "nat \<Rightarrow> exception + 'px"

text \<open>A copied frame: its pixel content and the \<open>info\<close> it was copied with.\<close>

record 'px frame =
  pixels :: 'px
  info :: "string \<rightharpoonup> int"

datatype 'px image_file = NotAnImage | Opens "'px image"

type_synonym 'px filesystem = "string \<rightharpoonup> 'px image_file"

definition os_path_exists :: "'px filesystem \<Rightarrow> string \<Rightarrow> bool" where
  "os_path_exists fs p = (fs p \<noteq> None)"

text \<open>\<open>Image.open\<close>: raises for a missing file and for bytes no decoder accepts.\<close>

definition Image_open :: "'px filesystem \<Rightarrow> string \<Rightarrow> exception + 'px image" where
  "Image_open fs p =
     (case fs p of
        None \<Rightarrow> Inl (FileNotFoundError p)
      | Some NotAnImage \<Rightarrow> Inl (UnidentifiedImageError p)
      | Some (Opens img) \<Rightarrow> Inr img)"

text \<open>
  The loop of lines 79-81 over the frame numbers still to visit: \<open>img.seek(frame)\<close>, then
  \<open>img.info.get('duration', 100)\<close>. The first raise ends it.
\<close>

fun read_durations :: "'px image \<Rightarrow> nat list \<Rightarrow> exception + int list" where
  "read_durations img [] = Inr []"
| "read_durations img (k # ks) =
     (case seek img k of
        Inl e \<Rightarrow> Inl e
      | Inr meta \<Rightarrow>
          (case read_durations img ks of
             Inl e \<Rightarrow> Inl e
           | Inr ds \<Rightarrow> Inr (dict_get meta ''duration'' 100 # ds)))"

text \<open>The loop of lines 83-85: \<open>img.seek(frame)\<close>, then \<open>img.copy()\<close>.\<close>

fun copy_frames :: "'px image \<Rightarrow> nat list \<Rightarrow> exception + 'px frame list" where
  "copy_frames img [] = Inr []"
| "copy_frames img (k # ks) =
     (case seek img k of
        Inl e \<Rightarrow> Inl e
      | Inr meta \<Rightarrow>
          (case copy img k of
             Inl e \<Rightarrow> Inl e
           | Inr px \<Rightarrow>
               (case copy_frames img ks of
                  Inl e \<Rightarrow> Inl e
                | Inr frs \<Rightarrow> Inr (\<lparr>pixels = px, info = meta\<rparr> # frs))))"

text \<open>The arguments of the \<open>save\<close> call of lines 87-94; the receiver is \<open>frames[0]\<close>.\<close>

record 'px save_call =
  first_frame :: "'px frame"
  format :: string
  append_images :: "'px frame list"
  save_all :: bool
  duration :: "int list"
  loop :: int

text \<open>Line 92, \<open>[d // speed_factor for d in durations]\<close>, stopping at the first raise.\<close>

fun floordiv_each :: "int list \<Rightarrow> int \<Rightarrow> exception + int list" where
  "floordiv_each [] k = Inr []"
| "floordiv_each (d # ds) k =
     (case py_floordiv d k of
        Inl e \<Rightarrow> Inl e
      | Inr q \<Rightarrow> (case floordiv_each ds k of Inl e \<Rightarrow> Inl e | Inr qs \<Rightarrow> Inr (q # qs)))"

text \<open>
  Lines 78-94 on an opened image, up to the \<open>save\<close> call: \<open>img.n_frames\<close> is read for each
  of the two loops, and Python evaluates the receiver \<open>frames[0]\<close> before the arguments.
\<close>

definition save_call_of :: "'px image \<Rightarrow> int \<Rightarrow> exception + 'px save_call" where
  "save_call_of img speed_factor =
     (case n_frames img of
        Inl e \<Rightarrow> Inl e
      | Inr n \<Rightarrow>
     (case read_durations img [0..<n] of
        Inl e \<Rightarrow> Inl e
      | Inr durations \<Rightarrow>
     (case n_frames img of
        Inl e \<Rightarrow> Inl e
      | Inr n' \<Rightarrow>
     (case copy_frames img [0..<n'] of
        Inl e \<Rightarrow> Inl e
      | Inr frames \<Rightarrow>
     (case py_getitem frames 0 of
        Inl e \<Rightarrow> Inl e
      | Inr f0 \<Rightarrow>
     (case floordiv_each durations speed_factor of
        Inl e \<Rightarrow> Inl e
      | Inr ds \<Rightarrow>
          Inr \<lparr>first_frame = f0, format = ''GIF'', append_images = drop 1 frames,
               save_all = True, duration = ds, loop = 0\<rparr>))))))"

subsection \<open>The GIF writer of the image library\<close>

text \<open>
  \<open>save\<close> with \<open>format='GIF'\<close> is the image library's, not the repository's. It is followed
  here as far as the number of frames and their timing go, since that is what the bytes
  returned by \<open>speed_up_gif\<close> are judged by. The bytes are taken as the animation a GIF
  decoder reads from them: the frames shown, each with its duration in milliseconds, and
  the loop count (0 for looping forever).

  The writer takes the duration of the \<open>n\<close>-th frame from the list at \<open>n\<close>. A frame whose
  pixels equal those of the frame written before it is not written again: its duration is
  added to that frame's. A GIF stores a duration as an unsigned 16-bit count of
  hundredths of a second, \<open>int(duration / 10)\<close>, and packing a count outside
  \<open>0..65535\<close> raises.
\<close>

record 'px animation =
  shown :: "('px \<times> int) list"
  loops :: int

fun pair_durations :: "'px frame list \<Rightarrow> int list \<Rightarrow> exception + ('px \<times> int) list" where
  "pair_durations [] ds = Inr []"
| "pair_durations (f # fs) [] = Inl IndexError"
| "pair_durations (f # fs) (d # ds) =
     (case pair_durations fs ds of
        Inl e \<Rightarrow> Inl e
      | Inr rest \<Rightarrow> Inr ((pixels f, d) # rest))"

fun merge_identical :: "('px \<times> int) list \<Rightarrow> ('px \<times> int) list" where
  "merge_identical ((p, d) # (q, e) # rest) =
     (if p = q then merge_identical ((p, d + e) # rest)
      else (p, d) # merge_identical ((q, e) # rest))"
| "merge_identical xs = xs"

text \<open>\<open>int(d / 10)\<close>: the quotient rounded towards zero.\<close>

definition centiseconds :: "int \<Rightarrow> int" where
  "centiseconds d = (if 0 \<le> d then d div 10 else - ((- d) div 10))"

fun write_durations :: "('px \<times> int) list \<Rightarrow> exception + ('px \<times> int) list" where
  "write_durations [] = Inr []"
| "write_durations ((p, d) # rest) =
     (if centiseconds d < 0 \<or> 65535 < centiseconds d then Inl StructError
      else (case write_durations rest of
              Inl e \<Rightarrow> Inl e
            | Inr ws \<Rightarrow> Inr ((p, 10 * centiseconds d) # ws)))"

definition gif_save :: "'px save_call \<Rightarrow> exception + 'px animation" where
  "gif_save c =
     (case pair_durations
             (if save_all c then first_frame c # append_images c else [first_frame c])
             (duration c) of
        Inl e \<Rightarrow> Inl e
      | Inr timed \<Rightarrow>
          (case write_durations (merge_identical timed) of
             Inl e \<Rightarrow> Inl e
           | Inr ws \<Rightarrow> Inr \<lparr>shown = ws, loops = loop c\<rparr>))"

text \<open>\<open>speed_up_gif\<close>: open, build the call, and return what the writer wrote.\<close>

definition speed_up_gif :: "'px filesystem \<Rightarrow> string \<Rightarrow> int \<Rightarrow> exception + 'px animation" where
  "speed_up_gif fs gif_path speed_factor =
     (case Image_open fs gif_path of
        Inl e \<Rightarrow> Inl e
      | Inr img \<Rightarrow>
          (case save_call_of img speed_factor of Inl e \<Rightarrow> Inl e | Inr c \<Rightarrow> gif_save c))"

subsection \<open>Files that can be read\<close>

text \<open>
  An opened image reads as the frames \<open>frs\<close> when \<open>n_frames\<close> is their number and \<open>seek\<close>
  and \<open>copy\<close> give the \<open>info\<close> and the pixels of each. It is readable when \<open>n_frames\<close> is
  there and not zero and no \<open>seek\<close> or \<open>copy\<close> of a frame raises; a path decodes when its
  file is there, opens, and is readable. \<open>decoded frs\<close> is the image that reads as \<open>frs\<close>
  and has nothing beyond them.
\<close>

definition reads_as :: "'px image \<Rightarrow> 'px frame list \<Rightarrow> bool" where
  "reads_as img frs =
     (n_frames img = Inr (length frs) \<and>
      (\<forall>k\<in>set [0..<length frs].
         seek img k = Inr (info (frs ! k)) \<and> copy img k = Inr (pixels (frs ! k))))"

definition readable :: "'px image \<Rightarrow> bool" where
  "readable img =
     (case n_frames img of
        Inl e \<Rightarrow> False
      | Inr n \<Rightarrow> 0 < n \<and> (\<forall>k\<in>set [0..<n]. \<not> isl (seek img k) \<and> \<not> isl (copy img k)))"

definition decodes :: "'px filesystem \<Rightarrow> string \<Rightarrow> bool" where
  "decodes fs p =
     (case fs p of
        None \<Rightarrow> False
      | Some NotAnImage \<Rightarrow> False
      | Some (Opens img) \<Rightarrow> readable img)"

definition decoded :: "'px frame list \<Rightarrow> 'px image" where
  "decoded frs =
     \<lparr>n_frames = Inr (length frs),
      seek = (\<lambda>k. if k < length frs then Inr (info (frs ! k))
                  else Inl (EOFError ''no more images in GIF file'')),
      copy = (\<lambda>k. if k < length frs then Inr (pixels (frs ! k))
                  else Inl (EOFError ''no more images in GIF file''))\<rparr>"

section \<open>The Run Task handler (app.py, lines 110-194)\<close>

text \<open>
  What lies outside the program: whether building the agent (lines 120-125, with
  \<open>get_llm\<close>) raises, what \<open>asyncio.run(agent.run())\<close> returns or raises for a task, and
  the files there are once the run is over.
\<close>

record ('e, 'm, 'px) env =
  new_agent :: "string \<Rightarrow> exception option"
  agent_run :: "string \<Rightarrow> exception + ('e, 'm) history"
  files :: "'px filesystem"

text \<open>
  Lines 182-185 and again lines 189-192, which differ in the heading and the caption only.
\<close>

definition show_gif ::
  "('e, 'm, 'px) env \<Rightarrow> string \<Rightarrow> string \<Rightarrow> ('e, 'm, 'px animation) app \<Rightarrow>
     ('e, 'm, 'px animation) app \<times> exception option"
where
  "show_gif env heading caption s =
     (if os_path_exists (files env) ''agent_history.gif''
      then
        (let s1 = s\<lparr>gif_container := Some (StMarkdown [Lit heading])\<rparr>;
             s2 = s1\<lparr>calls := calls s1 @ [SpeedUpGif ''agent_history.gif'' 2]\<rparr>
         in case speed_up_gif (files env) ''agent_history.gif'' 2 of
              Inl e \<Rightarrow> (s2, Some e)
            | Inr b \<Rightarrow> (s2\<lparr>gif_container := Some (StImage b caption)\<rparr>, None))
      else (s, None))"

text \<open>The body of the \<open>try\<close>, lines 129-185.\<close>

definition try_block ::
  "('e, 'm, 'px) env \<Rightarrow> string \<Rightarrow> ('e, 'm, 'px animation) app \<Rightarrow>
     ('e, 'm, 'px animation) app \<times> exception option"
where
  "try_block env task s =
     (let s1 = s\<lparr>calls := calls s @ [AgentRun task]\<rparr>
      in case agent_run env task of
           Inl e \<Rightarrow> (s1, Some e)
         | Inr h \<Rightarrow>
             (case render_outcome h s1 of
                (s2, Some e) \<Rightarrow> (s2, Some e)
              | (s2, None) \<Rightarrow>
                  show_gif env ''### Task Execution'' ''Task execution steps (2x speed)'' s2))"

text \<open>The \<open>except Exception as e\<close> branch, lines 187-194.\<close>

definition except_block ::
  "('e, 'm, 'px) env \<Rightarrow> exception \<Rightarrow> ('e, 'm, 'px animation) app \<Rightarrow>
     ('e, 'm, 'px animation) app \<times> exception option"
where
  "except_block env e s =
     (let s1 = s\<lparr>final_result_container :=
                   Some (StError [Lit (cross_mark @ '' Task Failed: ''),
                                  Fmt (PyStr (str_exception e))])\<rparr>
      in case show_gif env ''### Task Execution (Failed)''
                ''Task execution steps before failure (2x speed)'' s1 of
           (s2, Some e') \<Rightarrow> (s2, Some e')
         | (s2, None) \<Rightarrow>
             (st_add (StExpander ''Debug View'' [StError [Lit (str_exception e)]]) s2, None))"

text \<open>
  Lines 111-194, what a press of the button runs. The second component is the exception
  that leaves the handler uncaught, if any. The spinner of line 127 is on the page only
  while its block runs, so it leaves no element behind.
\<close>

definition run_task_handler ::
  "('e, 'm, 'px) env \<Rightarrow> string \<Rightarrow> ('e, 'm, 'px animation) app \<Rightarrow>
     ('e, 'm, 'px animation) app \<times> exception option"
where
  "run_task_handler env task s =
     (if task = [] then (st_add (StError [Lit ''Please enter a task first!'']) s, None)
      else
        (let s1 = s\<lparr>final_result_container := None, agent_history_container := None,
                     gif_container := None\<rparr>
         in case new_agent env task of
              Some e \<Rightarrow> (s1, Some e)
            | None \<Rightarrow>
                (case try_block env task s1 of
                   (s2, None) \<Rightarrow> (s2, None)
                 | (s2, Some e) \<Rightarrow> except_block env e s2)))"

section \<open>Example inputs\<close>

text \<open>The page before the button is pressed: three empty placeholders, nothing shown.\<close>

definition blank :: "(string, (string \<times> string) list, nat animation) app" where
  "blank = \<lparr>final_result_container = None, agent_history_container = None,
            gif_container = None, page = [], calls = []\<rparr>"

text \<open>
  A run of two steps that ends with \<open>done\<close>, with one URL only, two empty action records
  and no errors; the same run with an error recorded; and a run that returned nothing.
\<close>

definition two_steps :: "(string, (string \<times> string) list) history" where
  "two_steps = \<lparr>urls = [''u1''], screenshots = [], action_names = [''click'', ''done''],
                extracted_content = [''hello'', ''world''], errors = [],
                model_actions = [[], []]\<rparr>"

definition two_steps_with_error :: "(string, (string \<times> string) list) history" where
  "two_steps_with_error = two_steps\<lparr>errors := [''timeout'']\<rparr>"

definition no_steps :: "(string, (string \<times> string) list) history" where
  "no_steps = \<lparr>urls = [], screenshots = [], action_names = [], extracted_content = [],
               errors = [], model_actions = []\<rparr>"

text \<open>
  Animations, with a number standing for the pixels of a frame: three different frames of
  100 ms; the same frame three times, 100 ms each; three different frames of 30, 50 and
  70 ms; and two frames of which the second records no duration.
\<close>

definition three_frames :: "nat frame list" where
  "three_frames = [\<lparr>pixels = 1, info = [''duration'' \<mapsto> 100]\<rparr>,
                   \<lparr>pixels = 2, info = [''duration'' \<mapsto> 100]\<rparr>,
                   \<lparr>pixels = 3, info = [''duration'' \<mapsto> 100]\<rparr>]"

definition same_frames :: "nat frame list" where
  "same_frames = [\<lparr>pixels = 5, info = [''duration'' \<mapsto> 100]\<rparr>,
                  \<lparr>pixels = 5, info = [''duration'' \<mapsto> 100]\<rparr>,
                  \<lparr>pixels = 5, info = [''duration'' \<mapsto> 100]\<rparr>]"

definition uneven_frames :: "nat frame list" where
  "uneven_frames = [\<lparr>pixels = 1, info = [''duration'' \<mapsto> 30]\<rparr>,
                    \<lparr>pixels = 2, info = [''duration'' \<mapsto> 50]\<rparr>,
                    \<lparr>pixels = 3, info = [''duration'' \<mapsto> 70]\<rparr>]"

definition untimed_frames :: "nat frame list" where
  "untimed_frames = [\<lparr>pixels = 1, info = [''duration'' \<mapsto> 40]\<rparr>,
                     \<lparr>pixels = 2, info = Map.empty\<rparr>]"

text \<open>
  Files that cannot be read to the end: a still image of a format without \<open>n_frames\<close>, and
  a GIF of two frames cut off inside the second.
\<close>

definition still_image :: "nat image" where
  "still_image =
     \<lparr>n_frames = Inl (AttributeError ''n_frames''),
      seek = (\<lambda>k. if k = 0 then Inr Map.empty else Inl (EOFError ''no more images'')),
      copy = (\<lambda>k. Inr 7)\<rparr>"

definition truncated_gif :: "nat image" where
  "truncated_gif =
     \<lparr>n_frames = Inr 2,
      seek = (\<lambda>k. if k < 2 then Inr [''duration'' \<mapsto> 100] else Inl (EOFError ''no more images'')),
      copy = (\<lambda>k. if k = 0 then Inr 1 else Inl (OSError ''image file is truncated''))\<rparr>"

definition gif_files :: "nat filesystem" where
  "gif_files = [''agent_history.gif'' \<mapsto> Opens (decoded three_frames),
                ''same.gif'' \<mapsto> Opens (decoded same_frames),
                ''uneven.gif'' \<mapsto> Opens (decoded uneven_frames),
                ''untimed.gif'' \<mapsto> Opens (decoded untimed_frames),
                ''still.bmp'' \<mapsto> Opens still_image,
                ''truncated.gif'' \<mapsto> Opens truncated_gif,
                ''notes.txt'' \<mapsto> NotAnImage]"

definition broken_gif_files :: "nat filesystem" where
  "broken_gif_files = [''agent_history.gif'' \<mapsto> NotAnImage]"

text \<open>
  A world in which the agent returns the run of two steps and leaves behind a file
  \<open>agent_history.gif\<close> that is not an image.
\<close>

definition broken_gif_world :: "(string, (string \<times> string) list, nat) env" where
  "broken_gif_world = \<lparr>new_agent = (\<lambda>task. None), agent_run = (\<lambda>task. Inr two_steps),
                       files = broken_gif_files\<rparr>"

section \<open>Auxiliary facts\<close>

lemma py_getitem_nat: "i < length xs \<Longrightarrow> py_getitem xs (int i) = Inr (xs ! i)"
  by (simp add: py_getitem_def)

lemma py_getitem_last: "xs \<noteq> [] \<Longrightarrow> py_getitem xs (- 1) = Inr (last xs)"
  by (cases xs rule: rev_cases) (simp_all add: py_getitem_def nat_add_distrib)

lemma final_extracted_eq:
  "final_extracted h =
     Inr (if extracted_content h = [] then ''No result'' else last (extracted_content h))"
  by (simp add: final_extracted_def py_getitem_last)

lemma step_fields_eq:
  "step_fields h i =
     Inr \<lparr>step_number = int i + 1,
          action = (if i < length (action_names h) then action_names h ! i else ''N/A''),
          url = (if i < length (urls h) then urls h ! i else ''N/A''),
          extracted =
            (if i < length (extracted_content h) then extracted_content h ! i else ''N/A''),
          model_action =
            (if i < length (model_actions h) then PyObj (model_actions h ! i)
             else PyStr ''N/A'')\<rparr>"
  by (simp add: step_fields_def py_getitem_nat)

lemma collect_steps_eq:
  "\<exists>rs. collect_steps h ks = Inr rs \<and> length rs = length ks \<and>
        (\<forall>j<length ks. step_fields h (ks ! j) = Inr (rs ! j))"
proof (induction ks)
  case Nil
  show ?case by simp
next
  case (Cons k ks)
  then obtain rs where rs: "collect_steps h ks = Inr rs" "length rs = length ks"
    "\<forall>j<length ks. step_fields h (ks ! j) = Inr (rs ! j)" by blast
  obtain r where r: "step_fields h k = Inr r" using step_fields_eq by blast
  have "collect_steps h (k # ks) = Inr (r # rs)" using r rs by simp
  moreover have "\<forall>j<length (k # ks). step_fields h ((k # ks) ! j) = Inr ((r # rs) ! j)"
    using r rs by (auto simp: nth_Cons split: nat.splits)
  ultimately show ?case using rs by auto
qed

lemma steps_loop_eq:
  "collect_steps h ks = Inr rs \<Longrightarrow>
   steps_loop h ks s =
     (s\<lparr>page := page s @ concat (map2 (\<lambda>k r. step_heading k # step_lines r) ks rs)\<rparr>, None)"
proof (induction ks arbitrary: rs s)
  case Nil
  then show ?case by simp
next
  case (Cons k ks)
  obtain r where r: "step_fields h k = Inr r" using step_fields_eq by blast
  with Cons.prems obtain rs' where rs': "collect_steps h ks = Inr rs'" "rs = r # rs'"
    by (auto split: sum.splits)
  show ?case using Cons.IH[OF rs'(1)] r rs' by (simp add: st_add_def)
qed

lemma steps_eq:
  "\<exists>rs. steps h = Inr rs \<and> length rs = steps_count h \<and>
        (\<forall>i<steps_count h. step_fields h i = Inr (rs ! i))"
  using collect_steps_eq [of h "[0..<steps_count h]"] by (auto simp: steps_def)

lemma render_outcome_eq:
  assumes "steps h = Inr rs"
  shows "render_outcome h s =
     (s\<lparr>final_result_container :=
          Some (verdict_banner h
            (if extracted_content h = [] then ''No result'' else last (extracted_content h))),
        page := page s @ [StMarkdown [Lit ''### Steps'']] @
          concat (map2 (\<lambda>k r. step_heading k # step_lines r) [0..<steps_count h] rs) @
          [debug_view h]\<rparr>, None)"
proof -
  have "collect_steps h [0..<steps_count h] = Inr rs"
    using assms by (simp add: steps_def)
  note loop = steps_loop_eq [OF this]
  show ?thesis
    by (simp add: render_outcome_def final_extracted_eq st_add_def loop)
qed

lemma floordiv_each_eq: "k \<noteq> 0 \<Longrightarrow> floordiv_each ds k = Inr (map (\<lambda>d. d div k) ds)"
  by (induction ds) (simp_all add: py_floordiv_def)

lemma read_durations_eq:
  "\<forall>k\<in>set ks. seek img k = Inr (f k) \<Longrightarrow>
   read_durations img ks = Inr (map (\<lambda>k. dict_get (f k) ''duration'' 100) ks)"
  by (induction ks) simp_all

lemma copy_frames_eq:
  "\<forall>k\<in>set ks. seek img k = Inr (info (g k)) \<and> copy img k = Inr (pixels (g k)) \<Longrightarrow>
   copy_frames img ks = Inr (map g ks)"
  by (induction ks) simp_all

lemma read_durations_seeks:
  "read_durations img ks = Inr ds \<Longrightarrow> k \<in> set ks \<Longrightarrow> \<not> isl (seek img k)"
  by (induction ks arbitrary: ds) (auto split: sum.splits)

lemma copy_frames_copies:
  "copy_frames img ks = Inr frs \<Longrightarrow> k \<in> set ks \<Longrightarrow> \<not> isl (copy img k)"
  by (induction ks arbitrary: frs) (auto split: sum.splits)

lemma copy_frames_length: "copy_frames img ks = Inr frs \<Longrightarrow> length frs = length ks"
  by (induction ks arbitrary: frs) (auto split: sum.splits)

lemma save_call_of_eq:
  assumes "reads_as img frs" and "frs \<noteq> []" and "k \<noteq> 0"
  shows "save_call_of img k =
     Inr \<lparr>first_frame = hd frs, format = ''GIF'', append_images = tl frs, save_all = True,
          duration = map (\<lambda>fr. dict_get (info fr) ''duration'' 100 div k) frs, loop = 0\<rparr>"
proof -
  have n: "n_frames img = Inr (length frs)"
    using assms(1) by (simp add: reads_as_def)
  have each: "\<forall>j\<in>set [0..<length frs].
      seek img j = Inr (info (frs ! j)) \<and> copy img j = Inr (pixels (frs ! j))"
    using assms(1) by (simp add: reads_as_def)
  have "read_durations img [0..<length frs] =
      Inr (map (\<lambda>j. dict_get (info (frs ! j)) ''duration'' 100) [0..<length frs])"
    using each by (intro read_durations_eq) simp
  moreover have "map (\<lambda>j. dict_get (info (frs ! j)) ''duration'' 100) [0..<length frs] =
      map (\<lambda>fr. dict_get (info fr) ''duration'' 100) frs"
    by (rule nth_equalityI) simp_all
  ultimately have durs: "read_durations img [0..<length frs] =
      Inr (map (\<lambda>fr. dict_get (info fr) ''duration'' 100) frs)"
    by simp
  have "copy_frames img [0..<length frs] = Inr (map (\<lambda>j. frs ! j) [0..<length frs])"
    using each by (intro copy_frames_eq) simp
  then have frames: "copy_frames img [0..<length frs] = Inr frs"
    by (simp add: map_nth)
  have first: "py_getitem frs 0 = Inr (hd frs)"
    using assms(2) by (simp add: py_getitem_def hd_conv_nth)
  show ?thesis
    using assms(3)
    by (simp add: save_call_of_def n durs frames first floordiv_each_eq drop_Suc o_def)
qed

lemma save_call_of_unreadable:
  assumes "\<not> readable img"
  shows "isl (save_call_of img k)"
proof (cases "n_frames img")
  case (Inl e)
  then show ?thesis by (simp add: save_call_of_def)
next
  case (Inr n)
  show ?thesis
  proof (cases "read_durations img [0..<n]")
    case (Inl e)
    then show ?thesis using Inr by (simp add: save_call_of_def)
  next
    case ds: (Inr ds)
    show ?thesis
    proof (cases "copy_frames img [0..<n]")
      case (Inl e)
      then show ?thesis using Inr ds by (simp add: save_call_of_def)
    next
      case frs: (Inr frs)
      have "\<forall>j\<in>set [0..<n]. \<not> isl (seek img j) \<and> \<not> isl (copy img j)"
        using read_durations_seeks [OF ds] copy_frames_copies [OF frs] by blast
      then have "n = 0" using assms Inr by (simp add: readable_def)
      then have "frs = []" using copy_frames_length [OF frs] by simp
      then show ?thesis using Inr ds frs by (simp add: save_call_of_def py_getitem_def)
    qed
  qed
qed

lemma readable_copy:
  "readable img \<Longrightarrow> n_frames img = Inr n \<Longrightarrow> k < n \<Longrightarrow> \<not> isl (copy img k)"
  by (simp add: readable_def)

lemma readable_iff_reads_as: "readable img \<longleftrightarrow> (\<exists>frs. frs \<noteq> [] \<and> reads_as img frs)"
proof
  assume r: "readable img"
  then obtain n where n: "n_frames img = Inr n" "0 < n"
    "\<forall>k\<in>set [0..<n]. \<not> isl (seek img k) \<and> \<not> isl (copy img k)"
    by (auto simp: readable_def split: sum.splits)
  define frs where "frs = map (\<lambda>k. \<lparr>pixels = projr (copy img k), info = projr (seek img k)\<rparr>) [0..<n]"
  have "length frs = n" by (simp add: frs_def)
  moreover have "seek img k = Inr (info (frs ! k)) \<and> copy img k = Inr (pixels (frs ! k))"
    if "k < n" for k
    using that n(3) by (simp add: frs_def)
  ultimately have "reads_as img frs" using n(1) by (simp add: reads_as_def)
  moreover have "frs \<noteq> []" using \<open>length frs = n\<close> n(2) by auto
  ultimately show "\<exists>frs. frs \<noteq> [] \<and> reads_as img frs" by blast
next
  assume "\<exists>frs. frs \<noteq> [] \<and> reads_as img frs"
  then show "readable img" by (auto simp: readable_def reads_as_def)
qed

lemma pair_durations_eq:
  "length ds = length frs \<Longrightarrow> pair_durations frs ds = Inr (zip (map pixels frs) ds)"
  by (induction frs ds rule: pair_durations.induct) simp_all

lemma merge_identical_distinct: "distinct_adj (map fst xs) \<Longrightarrow> merge_identical xs = xs"
  by (induction xs rule: merge_identical.induct) simp_all

lemma centiseconds_nonneg: "0 \<le> d \<Longrightarrow> centiseconds d = d div 10"
  by (simp add: centiseconds_def)

lemma div_10_in_range: "0 \<le> d \<Longrightarrow> d < 655360 \<Longrightarrow> 0 \<le> d div 10 \<and> d div 10 \<le> (65535 :: int)"
  by presburger

lemma write_durations_eq:
  "\<forall>x\<in>set xs. 0 \<le> snd x \<and> snd x < 655360 \<Longrightarrow>
   write_durations xs = Inr (map (\<lambda>x. (fst x, 10 * (snd x div 10))) xs)"
proof (induction xs rule: write_durations.induct)
  case 1
  show ?case by simp
next
  case (2 p d rest)
  have d: "0 \<le> d" "d < 655360" using "2.prems" by simp_all
  have c: "centiseconds d = d div 10" using d(1) by (rule centiseconds_nonneg)
  have r: "\<not> (centiseconds d < 0 \<or> 65535 < centiseconds d)"
    using div_10_in_range [OF d] c by simp
  have "write_durations rest = Inr (map (\<lambda>x. (fst x, 10 * (snd x div 10))) rest)"
    using "2.IH" [OF r] "2.prems" by simp
  then show ?case using r c by simp
qed

lemma speed_up_gif_eq:
  assumes "fs p = Some (Opens img)" and "reads_as img frs" and "frs \<noteq> []" and "k \<noteq> 0"
  shows "speed_up_gif fs p k =
     (case write_durations (merge_identical
             (map (\<lambda>fr. (pixels fr, dict_get (info fr) ''duration'' 100 div k)) frs)) of
        Inl e \<Rightarrow> Inl e
      | Inr ws \<Rightarrow> Inr \<lparr>shown = ws, loops = 0\<rparr>)"
proof -
  have z: "zip (map pixels frs) (map (\<lambda>fr. dict_get (info fr) ''duration'' 100 div k) frs) =
      map (\<lambda>fr. (pixels fr, dict_get (info fr) ''duration'' 100 div k)) frs"
    by (induction frs) simp_all
  show ?thesis
    using assms(3)
    by (simp add: speed_up_gif_def Image_open_def assms(1) save_call_of_eq [OF assms(2,3,4)]
        gif_save_def pair_durations_eq z split: sum.splits)
qed

lemma reads_as_decoded: "reads_as (decoded frs) frs"
  by (simp add: reads_as_def decoded_def)


lemma show_gif_calls:
  "\<exists>gs. calls (fst (show_gif env heading caption s)) = calls s @ gs \<and> (\<forall>t. AgentRun t \<notin> set gs)"
  by (auto simp: show_gif_def Let_def split: sum.splits)

lemma render_outcome_calls: "calls (fst (render_outcome h s)) = calls s"
proof -
  obtain rs where "steps h = Inr rs" using steps_eq by blast
  from render_outcome_eq [OF this, of s] show ?thesis by simp
qed

lemma render_outcome_None: "snd (render_outcome h s) = None"
proof -
  obtain rs where "steps h = Inr rs" using steps_eq by blast
  from render_outcome_eq [OF this, of s] show ?thesis by simp
qed

lemma try_block_calls:
  "\<exists>gs. calls (fst (try_block env task s)) = calls s @ AgentRun task # gs \<and>
        (\<forall>t. AgentRun t \<notin> set gs)"
proof (cases "agent_run env task")
  case (Inl e)
  then show ?thesis by (simp add: try_block_def)
next
  case (Inr h)
  obtain s2 where s2: "render_outcome h (s\<lparr>calls := calls s @ [AgentRun task]\<rparr>) = (s2, None)"
    using render_outcome_None [of h "s\<lparr>calls := calls s @ [AgentRun task]\<rparr>"]
    by (cases "render_outcome h (s\<lparr>calls := calls s @ [AgentRun task]\<rparr>)") simp
  then have c2: "calls s2 = calls s @ [AgentRun task]"
    using render_outcome_calls [of h "s\<lparr>calls := calls s @ [AgentRun task]\<rparr>"] by simp
  obtain gs where "calls (fst (show_gif env ''### Task Execution''
      ''Task execution steps (2x speed)'' s2)) = calls s2 @ gs" "\<forall>t. AgentRun t \<notin> set gs"
    using show_gif_calls by blast
  then show ?thesis using Inr s2 c2 by (simp add: try_block_def)
qed

lemma except_block_calls:
  "\<exists>gs. calls (fst (except_block env e s)) = calls s @ gs \<and> (\<forall>t. AgentRun t \<notin> set gs)"
proof -
  let ?s1 = "s\<lparr>final_result_container :=
     Some (StError [Lit (cross_mark @ '' Task Failed: ''), Fmt (PyStr (str_exception e))])\<rparr>"
  obtain gs where gs: "calls (fst (show_gif env ''### Task Execution (Failed)''
      ''Task execution steps before failure (2x speed)'' ?s1)) = calls ?s1 @ gs"
      "\<forall>t. AgentRun t \<notin> set gs"
    using show_gif_calls by blast
  then show ?thesis
    by (cases "show_gif env ''### Task Execution (Failed)''
      ''Task execution steps before failure (2x speed)'' ?s1")
      (auto simp: except_block_def st_add_def split: option.splits)
qed

section \<open>The claims\<close>

text \<open>
  Claim C1. The banner the reconciler writes is the success banner exactly when \<open>errors\<close>
  is empty or \<open>"done"\<close> is among the action names, and the failure banner exactly
  otherwise; in particular a \<open>"done"\<close> action gives success also when errors were recorded.
\<close>

theorem verdict_done_or_no_errors:
  "((\<exists>t. final_result_container (fst (render_outcome h s)) = Some (StSuccess t)) \<longleftrightarrow>
      errors h = [] \<or> ''done'' \<in> set (action_names h)) \<and>
   ((\<exists>t. final_result_container (fst (render_outcome h s)) = Some (StError t)) \<longleftrightarrow>
      \<not> (errors h = [] \<or> ''done'' \<in> set (action_names h))) \<and>
   (''done'' \<in> set (action_names h) \<and> errors h \<noteq> [] \<longrightarrow>
      (\<exists>t. final_result_container (fst (render_outcome h s)) = Some (StSuccess t)))"
proof -
  obtain rs where "steps h = Inr rs" using steps_eq by blast
  from render_outcome_eq [OF this, of s] show ?thesis
    by (simp add: verdict_banner_def)
qed

theorem verdict_done_or_no_errors_witness:
  "errors two_steps_with_error \<noteq> [] \<and> ''done'' \<in> set (action_names two_steps_with_error) \<and>
   (\<exists>t. final_result_container (fst (render_outcome two_steps_with_error blank)) =
      Some (StSuccess t))"
  using verdict_done_or_no_errors [of two_steps_with_error blank]
  by (simp add: two_steps_with_error_def two_steps_def)

text \<open>
  Claim C2. The loop builds one step record per index below the greatest of the lengths of
  \<open>action_names\<close>, \<open>extracted_content\<close>, \<open>model_actions\<close> and \<open>urls\<close>, and none when
  all four are empty. Position \<open>i\<close> is shown as step \<open>i+1\<close>, and a record for position
  \<open>i\<close> exists exactly when \<open>i\<close> is below that maximum: none at or beyond it. The page
  receives the heading and the lines of exactly these records, in order.
\<close>

theorem step_count_is_max:
  "\<exists>rs. steps h = Inr rs \<and>
     length rs =
       max (length (action_names h))
         (max (length (extracted_content h))
            (max (length (model_actions h)) (length (urls h)))) \<and>
     (action_names h = [] \<and> extracted_content h = [] \<and> model_actions h = [] \<and>
        urls h = [] \<longrightarrow> rs = []) \<and>
     (\<forall>i. (\<exists>r\<in>set rs. step_number r = int i + 1) \<longleftrightarrow> i < length rs) \<and>
     page (fst (render_outcome h s)) =
       page s @ [StMarkdown [Lit ''### Steps'']] @
       concat (map2 (\<lambda>i r. step_heading i # step_lines r) [0..<length rs] rs) @
       [debug_view h]"
proof -
  obtain rs where rs: "steps h = Inr rs" "length rs = steps_count h"
    "\<forall>i<steps_count h. step_fields h i = Inr (rs ! i)" using steps_eq by blast
  have num: "(\<exists>r\<in>set rs. step_number r = int i + 1) \<longleftrightarrow> i < length rs" for i
  proof
    assume "\<exists>r\<in>set rs. step_number r = int i + 1"
    then obtain j where j: "j < length rs" "step_number (rs ! j) = int i + 1"
      by (auto simp: in_set_conv_nth)
    then have "rs ! j = projr (step_fields h j)" using rs by simp
    then have "step_number (rs ! j) = int j + 1" by (simp add: step_fields_eq)
    then show "i < length rs" using j by simp
  next
    assume i: "i < length rs"
    then have "rs ! i = projr (step_fields h i)" using rs by simp
    then have "step_number (rs ! i) = int i + 1" by (simp add: step_fields_eq)
    then show "\<exists>r\<in>set rs. step_number r = int i + 1" using i by auto
  qed
  have "length rs = 0" if "action_names h = []" "extracted_content h = []"
    "model_actions h = []" "urls h = []"
    using that rs(2) by (simp add: steps_count_def)
  moreover have "page (fst (render_outcome h s)) =
       page s @ [StMarkdown [Lit ''### Steps'']] @
       concat (map2 (\<lambda>i r. step_heading i # step_lines r) [0..<length rs] rs) @
       [debug_view h]"
    using rs(2) render_outcome_eq [OF rs(1), of s] by simp
  moreover have "length rs =
       max (length (action_names h))
         (max (length (extracted_content h))
            (max (length (model_actions h)) (length (urls h))))"
    using rs(2) by (simp add: steps_count_def)
  ultimately show ?thesis
    using rs(1) num by blast
qed

theorem step_count_is_max_witness:
  "action_names no_steps = [] \<and> extracted_content no_steps = [] \<and>
   model_actions no_steps = [] \<and> urls no_steps = [] \<and> steps no_steps = Inr [] \<and>
   (\<exists>rs. steps two_steps = Inr rs \<and> length rs = 2)"
proof -
  from step_count_is_max [of no_steps blank] have "steps no_steps = Inr []"
    by (auto simp: no_steps_def)
  moreover from step_count_is_max [of two_steps blank]
  have "\<exists>rs. steps two_steps = Inr rs \<and> length rs = 2"
    by (auto simp: two_steps_def)
  ultimately show ?thesis by (simp add: no_steps_def)
qed

text \<open>
  Claim C3. The record at position \<open>i\<close> below the step count takes each field from its own
  list at position \<open>i\<close> when the list is that long and is \<open>"N/A"\<close> otherwise, and the
  records are shown in the order of their positions, none moved, merged or dropped.
\<close>

theorem step_record_fields:
  "\<exists>rs. steps h = Inr rs \<and> length rs = steps_count h \<and>
     (\<forall>i<steps_count h.
        step_number (rs ! i) = int i + 1 \<and>
        action (rs ! i) = (if i < length (action_names h) then action_names h ! i else ''N/A'') \<and>
        url (rs ! i) = (if i < length (urls h) then urls h ! i else ''N/A'') \<and>
        extracted (rs ! i) =
          (if i < length (extracted_content h) then extracted_content h ! i else ''N/A'') \<and>
        model_action (rs ! i) =
          (if i < length (model_actions h) then PyObj (model_actions h ! i)
           else PyStr ''N/A'')) \<and>
     page (fst (render_outcome h s)) =
       page s @ [StMarkdown [Lit ''### Steps'']] @
       concat (map2 (\<lambda>i r. step_heading i # step_lines r) [0..<steps_count h] rs) @
       [debug_view h]"
proof -
  obtain rs where rs: "steps h = Inr rs" "length rs = steps_count h"
    "\<forall>i<steps_count h. step_fields h i = Inr (rs ! i)" using steps_eq by blast
  have "\<forall>i<steps_count h. rs ! i = projr (step_fields h i)"
    using rs(3) by simp
  then show ?thesis
    using rs(1,2) render_outcome_eq [OF rs(1), of s] by (simp add: step_fields_eq)
qed

theorem step_record_fields_witness:
  "\<exists>rs. steps two_steps = Inr rs \<and> length rs = 2 \<and>
     action (rs ! 0) = ''click'' \<and> url (rs ! 0) = ''u1'' \<and> extracted (rs ! 0) = ''hello'' \<and>
     action (rs ! 1) = ''done'' \<and> url (rs ! 1) = ''N/A'' \<and> extracted (rs ! 1) = ''world'' \<and>
     model_action (rs ! 1) = PyObj [] \<and> step_number (rs ! 1) = 2"
proof -
  have n: "steps_count two_steps = 2" by (simp add: steps_count_def two_steps_def)
  from step_record_fields [of two_steps blank] obtain rs where
    rs: "steps two_steps = Inr rs" "length rs = steps_count two_steps"
     "\<forall>i<steps_count two_steps.
        step_number (rs ! i) = int i + 1 \<and>
        action (rs ! i) =
          (if i < length (action_names two_steps) then action_names two_steps ! i else ''N/A'') \<and>
        url (rs ! i) = (if i < length (urls two_steps) then urls two_steps ! i else ''N/A'') \<and>
        extracted (rs ! i) =
          (if i < length (extracted_content two_steps) then extracted_content two_steps ! i
           else ''N/A'') \<and>
        model_action (rs ! i) =
          (if i < length (model_actions two_steps) then PyObj (model_actions two_steps ! i)
           else PyStr ''N/A'')"
    by blast
  from rs(3) n have "action (rs ! 0) = ''click'' \<and> url (rs ! 0) = ''u1'' \<and>
      extracted (rs ! 0) = ''hello''"
    by (simp add: two_steps_def)
  moreover from rs(3) n have "action (rs ! 1) = ''done'' \<and> url (rs ! 1) = ''N/A'' \<and>
      extracted (rs ! 1) = ''world'' \<and> model_action (rs ! 1) = PyObj [] \<and>
      step_number (rs ! 1) = 2"
    by (simp add: two_steps_def)
  ultimately show ?thesis using rs(1,2) n by auto
qed

text \<open>
  Claim C4. The summary is the last element of \<open>extracted_content\<close> when there is one and
  \<open>"No result"\<close> otherwise, and it is the text the banner carries.
\<close>

theorem summary_text_last_or_marker:
  "(extracted_content h \<noteq> [] \<longrightarrow> final_extracted h = Inr (last (extracted_content h))) \<and>
   (extracted_content h = [] \<longrightarrow> final_extracted h = Inr ''No result'') \<and>
   (\<exists>fe. final_extracted h = Inr fe \<and>
      final_result_container (fst (render_outcome h s)) = Some (verdict_banner h fe))"
proof -
  obtain rs where "steps h = Inr rs" using steps_eq by blast
  from render_outcome_eq [OF this, of s] show ?thesis
    by (simp add: final_extracted_eq)
qed

theorem summary_text_last_or_marker_witness:
  "extracted_content two_steps \<noteq> [] \<and> final_extracted two_steps = Inr ''world'' \<and>
   extracted_content no_steps = [] \<and> final_extracted no_steps = Inr ''No result''"
  using summary_text_last_or_marker [of two_steps blank]
    summary_text_last_or_marker [of no_steps blank]
  by (simp add: two_steps_def no_steps_def)




text \<open>
  Claim C6, as the code has it. The GIF is transformed inside the \<open>try\<close> that also renders
  the outcome. When the file is there and the transformation raises \<open>e\<close>, the steps and the
  debug view already on the page stay as the reconciler left them, but the \<open>except\<close> branch
  replaces the verdict banner by a failure banner with the text of \<open>e\<close>, and its own call of
  the transformation raises again, so \<open>e\<close> leaves the handler.
\<close>

theorem gif_failure_replaces_banner:
  assumes "task \<noteq> []" and "new_agent env task = None" and "agent_run env task = Inr h"
    and "os_path_exists (files env) ''agent_history.gif''"
    and "speed_up_gif (files env) ''agent_history.gif'' 2 = Inl e"
  shows "\<exists>s'. run_task_handler env task s = (s', Some e) \<and>
     page s' = page (fst (render_outcome h s)) \<and>
     final_result_container s' =
       Some (StError [Lit (cross_mark @ '' Task Failed: ''), Fmt (PyStr (str_exception e))])"
proof -
  obtain rs where rs: "steps h = Inr rs" using steps_eq by blast
  note ro = render_outcome_eq [OF rs]
  show ?thesis
    using assms
    by (simp add: run_task_handler_def try_block_def except_block_def show_gif_def ro)
qed

theorem gif_failure_replaces_banner_witness:
  "''go'' \<noteq> [] \<and> new_agent broken_gif_world ''go'' = None \<and>
   agent_run broken_gif_world ''go'' = Inr two_steps \<and>
   os_path_exists (files broken_gif_world) ''agent_history.gif'' \<and>
   speed_up_gif (files broken_gif_world) ''agent_history.gif'' 2 =
     Inl (UnidentifiedImageError ''agent_history.gif'') \<and>
   snd (run_task_handler broken_gif_world ''go'' blank) =
     Some (UnidentifiedImageError ''agent_history.gif'') \<and>
   page (fst (run_task_handler broken_gif_world ''go'' blank)) =
     page (fst (render_outcome two_steps blank)) \<and>
   final_result_container (fst (run_task_handler broken_gif_world ''go'' blank)) =
     Some (StError [Lit (cross_mark @ '' Task Failed: ''),
                    Fmt (PyStr (str_exception (UnidentifiedImageError ''agent_history.gif'')))])"
proof -
  have t: "''go'' \<noteq> []" by simp
  have a: "new_agent broken_gif_world ''go'' = None" by (simp add: broken_gif_world_def)
  have r: "agent_run broken_gif_world ''go'' = Inr two_steps"
    by (simp add: broken_gif_world_def)
  have x: "os_path_exists (files broken_gif_world) ''agent_history.gif''"
    by (simp add: broken_gif_world_def broken_gif_files_def os_path_exists_def)
  have g: "speed_up_gif (files broken_gif_world)
      ''agent_history.gif'' 2 = Inl (UnidentifiedImageError ''agent_history.gif'')"
    by (simp add: broken_gif_world_def broken_gif_files_def speed_up_gif_def Image_open_def)
  from gif_failure_replaces_banner [OF t a r x g, of blank] obtain s' where
    "run_task_handler broken_gif_world ''go'' blank =
       (s', Some (UnidentifiedImageError ''agent_history.gif''))"
    "page s' = page (fst (render_outcome two_steps blank))"
    "final_result_container s' =
       Some (StError [Lit (cross_mark @ '' Task Failed: ''),
                      Fmt (PyStr (str_exception (UnidentifiedImageError ''agent_history.gif'')))])"
    by blast
  with t a r x g show ?thesis by simp
qed

text \<open>
  The claim as stated fails: for the run of two steps the reconciler writes the success
  banner with summary \<open>world\<close>; with a file that is not an image the handler ends with the
  failure banner carrying the image library's message, and the exception uncaught.
\<close>

theorem gif_failure_changes_banner:
  "final_result_container (fst (render_outcome two_steps blank)) =
     Some (StSuccess [Lit (check_mark @ '' Task Completed Successfully: ''),
                      Fmt (PyStr ''world'')]) \<and>
   final_result_container (fst (run_task_handler broken_gif_world ''go'' blank)) =
     Some (StError [Lit (cross_mark @ '' Task Failed: ''),
                    Fmt (PyStr (str_exception (UnidentifiedImageError ''agent_history.gif'')))]) \<and>
   snd (run_task_handler broken_gif_world ''go'' blank) =
     Some (UnidentifiedImageError ''agent_history.gif'')"
proof -
  obtain rs where rs: "steps two_steps = Inr rs" using steps_eq by blast
  note ro = render_outcome_eq [OF rs]
  have "final_result_container (fst (render_outcome two_steps blank)) =
     Some (StSuccess [Lit (check_mark @ '' Task Completed Successfully: ''),
                      Fmt (PyStr ''world'')])"
    by (subst ro) (simp add: verdict_banner_def two_steps_def)
  moreover have "run_task_handler broken_gif_world ''go'' blank =
     (fst (run_task_handler broken_gif_world ''go'' blank),
      Some (UnidentifiedImageError ''agent_history.gif''))"
    by (simp add: run_task_handler_def broken_gif_world_def try_block_def except_block_def
        show_gif_def ro os_path_exists_def broken_gif_files_def speed_up_gif_def
        Image_open_def)
  moreover have "final_result_container (fst (run_task_handler broken_gif_world ''go'' blank)) =
     Some (StError [Lit (cross_mark @ '' Task Failed: ''),
                    Fmt (PyStr (str_exception (UnidentifiedImageError ''agent_history.gif'')))])"
    by (simp add: run_task_handler_def broken_gif_world_def try_block_def except_block_def
        show_gif_def ro os_path_exists_def broken_gif_files_def speed_up_gif_def
        Image_open_def)
  ultimately show ?thesis by (metis snd_conv)
qed

text \<open>
  Claim C7. For every path that does not decode, that is, whose file is missing, is not an
  image, or cannot be read frame by frame (\<open>n_frames\<close> missing or zero, or a \<open>seek\<close> or
  \<open>copy\<close> that raises), \<open>speed_up_gif\<close> raises and returns no bytes, whatever the speed
  factor. For a missing file that is the \<open>FileNotFoundError\<close> of \<open>Image.open\<close>: it is never
  passed over silently. The paths that do decode are those whose image reads as some
  frames, at least one: the inputs of claim C5.
\<close>

theorem undecodable_file_fails:
  assumes "\<not> decodes fs p"
  shows "(\<exists>e. speed_up_gif fs p k = Inl e) \<and>
     (fs p = None \<longrightarrow> speed_up_gif fs p k = Inl (FileNotFoundError p)) \<and>
     (fs p = Some NotAnImage \<longrightarrow> speed_up_gif fs p k = Inl (UnidentifiedImageError p))"
proof (cases "fs p")
  case None
  then show ?thesis by (simp add: speed_up_gif_def Image_open_def)
next
  case (Some f)
  show ?thesis
  proof (cases f)
    case NotAnImage
    then show ?thesis using Some by (simp add: speed_up_gif_def Image_open_def)
  next
    case (Opens img)
    then have "\<not> readable img" using assms Some by (simp add: decodes_def)
    then have "isl (save_call_of img k)" by (rule save_call_of_unreadable)
    then obtain e where "save_call_of img k = Inl e" by (cases "save_call_of img k") simp_all
    then show ?thesis using Some Opens by (simp add: speed_up_gif_def Image_open_def)
  qed
qed

theorem undecodable_file_fails_witness:
  "\<not> decodes gif_files ''missing.gif'' \<and>
   speed_up_gif gif_files ''missing.gif'' 2 = Inl (FileNotFoundError ''missing.gif'') \<and>
   \<not> decodes gif_files ''notes.txt'' \<and>
   speed_up_gif gif_files ''notes.txt'' 2 = Inl (UnidentifiedImageError ''notes.txt'') \<and>
   \<not> decodes gif_files ''still.bmp'' \<and> (\<exists>e. speed_up_gif gif_files ''still.bmp'' 2 = Inl e) \<and>
   \<not> decodes gif_files ''truncated.gif'' \<and>
   (\<exists>e. speed_up_gif gif_files ''truncated.gif'' 2 = Inl e)"
proof -
  have m: "\<not> decodes gif_files ''missing.gif''" "gif_files ''missing.gif'' = None"
    by (simp_all add: decodes_def gif_files_def)
  have t: "\<not> decodes gif_files ''notes.txt''" "gif_files ''notes.txt'' = Some NotAnImage"
    by (simp_all add: decodes_def gif_files_def)
  have s: "\<not> decodes gif_files ''still.bmp''"
    by (simp add: decodes_def gif_files_def readable_def still_image_def)
  have "isl (copy truncated_gif 1)" "n_frames truncated_gif = Inr 2"
    by (simp_all add: truncated_gif_def)
  then have "\<not> readable truncated_gif"
    using readable_copy [of truncated_gif 2 1] by auto
  then have g: "\<not> decodes gif_files ''truncated.gif''"
    by (simp add: decodes_def gif_files_def)
  show ?thesis
    using undecodable_file_fails [OF m(1), of 2] undecodable_file_fails [OF t(1), of 2]
      undecodable_file_fails [OF s, of 2] undecodable_file_fails [OF g, of 2] m t s g
    by simp
qed

text \<open>
  Claim C8. Rendering the outcome of a run never raises, whatever the lists hold, and what
  it writes is a function of the run alone: one banner and one sequence of page elements,
  the same from every starting page, with nothing else of the page touched.
\<close>

theorem reconcile_total_pure:
  "\<exists>banner els. \<forall>s :: ('e, 'm, 'b) app.
     render_outcome (h :: ('e, 'm) history) s =
       (s\<lparr>final_result_container := Some banner, page := page s @ els\<rparr>, None)"
proof -
  obtain rs where "steps h = Inr rs" using steps_eq by blast
  from render_outcome_eq [OF this] show ?thesis by blast
qed

theorem reconcile_total_pure_witness:
  "\<exists>banner els. render_outcome no_steps blank =
     (blank\<lparr>final_result_container := Some banner, page := els\<rparr>, None)"
proof -
  from reconcile_total_pure [of no_steps] obtain banner els where
    "\<forall>s :: (string, (string \<times> string) list, nat animation) app. render_outcome no_steps s =
       (s\<lparr>final_result_container := Some banner, page := page s @ els\<rparr>, None)"
    by blast
  then have "render_outcome no_steps blank =
      (blank\<lparr>final_result_container := Some banner, page := page blank @ els\<rparr>, None)"
    by blast
  then show ?thesis by blast
qed

text \<open>
  Claim C9. With an empty task the handler shows the validation error and does nothing
  else: no agent run and no GIF transformation is started. In general every agent run the
  handler starts is for its own task, and that task is not empty.
\<close>

theorem empty_task_never_runs:
  "run_task_handler env [] s = (st_add (StError [Lit ''Please enter a task first!'']) s, None) \<and>
   calls (fst (run_task_handler env [] s)) = calls s \<and>
   (\<exists>cs. calls (fst (run_task_handler env task s)) = calls s @ cs \<and>
      (\<forall>t. AgentRun t \<in> set cs \<longrightarrow> t = task \<and> task \<noteq> []))"
proof -
  have first: "run_task_handler env [] s =
      (st_add (StError [Lit ''Please enter a task first!'']) s, None)"
    by (simp add: run_task_handler_def)
  have "\<exists>cs. calls (fst (run_task_handler env task s)) = calls s @ cs \<and>
      (\<forall>t. AgentRun t \<in> set cs \<longrightarrow> t = task \<and> task \<noteq> [])"
  proof (cases "task = []")
    case True
    then show ?thesis by (simp add: run_task_handler_def st_add_def)
  next
    case False
    let ?s1 = "s\<lparr>final_result_container := None, agent_history_container := None,
      gif_container := None\<rparr>"
    show ?thesis
    proof (cases "new_agent env task")
      case (Some e)
      then show ?thesis using False by (simp add: run_task_handler_def)
    next
      case None
      obtain gs where gs: "calls (fst (try_block env task ?s1)) = calls ?s1 @ AgentRun task # gs"
        "\<forall>t. AgentRun t \<notin> set gs" using try_block_calls by blast
      obtain s2 r where t: "try_block env task ?s1 = (s2, r)" by (cases "try_block env task ?s1")
      show ?thesis
      proof (cases r)
        case None
        then show ?thesis using False \<open>new_agent env task = None\<close> t gs
          by (auto simp: run_task_handler_def)
      next
        case (Some e)
        obtain hs where hs: "calls (fst (except_block env e s2)) = calls s2 @ hs"
          "\<forall>t. AgentRun t \<notin> set hs" using except_block_calls by blast
        then show ?thesis using False \<open>new_agent env task = None\<close> t gs Some
          by (auto simp: run_task_handler_def)
      qed
    qed
  qed
  then show ?thesis using first by (simp add: st_add_def)
qed

theorem empty_task_never_runs_witness:
  "run_task_handler broken_gif_world [] blank =
     (blank\<lparr>page := [StError [Lit ''Please enter a task first!'']]\<rparr>, None) \<and>
   calls (fst (run_task_handler broken_gif_world [] blank)) = [] \<and>
   calls (fst (run_task_handler broken_gif_world ''go'' blank)) =
     [AgentRun ''go'', SpeedUpGif ''agent_history.gif'' 2, SpeedUpGif ''agent_history.gif'' 2]"
proof -
  obtain rs where rs: "steps two_steps = Inr rs" using steps_eq by blast
  note ro = render_outcome_eq [OF rs]
  have "calls (fst (run_task_handler broken_gif_world ''go'' blank)) =
      [AgentRun ''go'', SpeedUpGif ''agent_history.gif'' 2, SpeedUpGif ''agent_history.gif'' 2]"
    by (simp add: run_task_handler_def broken_gif_world_def try_block_def except_block_def
        show_gif_def ro os_path_exists_def broken_gif_files_def speed_up_gif_def
        Image_open_def blank_def)
  then show ?thesis
    using empty_task_never_runs [of broken_gif_world blank "''go''"]
    by (simp add: st_add_def blank_def)
qed

text \<open>
  Claim C10, as the code and the GIF writer have it. A frame whose \<open>info\<close> has no
  \<open>duration\<close> entry is read as 100: for every speed factor other than zero the duration
  handed to the writer for it is \<open>100 div k\<close>, the quotient rounded down, and reading it
  raises nothing. What is written for it is that quotient rounded down to a multiple of
  10 ms, when no two neighbouring frames are identical and every quotient is from 0 up to
  655359.
\<close>

theorem missing_duration_read_as_100:
  assumes "fs p = Some (Opens img)" and "reads_as img frs" and "i < length frs"
    and "info (frs ! i) ''duration'' = None" and "k \<noteq> 0"
  shows "\<exists>c. save_call_of img k = Inr c \<and> speed_up_gif fs p k = gif_save c \<and>
     length (duration c) = length frs \<and> duration c ! i = 100 div k \<and>
     (distinct_adj (map pixels frs) \<and> (\<forall>q\<in>set (duration c). 0 \<le> q \<and> q < 655360) \<longrightarrow>
        (\<exists>a. speed_up_gif fs p k = Inr a \<and> length (shown a) = length frs \<and>
           snd (shown a ! i) = 10 * (100 div k div 10)))"
proof -
  define qs where "qs = map (\<lambda>fr. dict_get (info fr) ''duration'' 100 div k) frs"
  define c where "c =
    \<lparr>first_frame = hd frs, format = ''GIF'', append_images = tl frs, save_all = True,
     duration = qs, loop = 0\<rparr>"
  have ne: "frs \<noteq> []" using assms(3) by auto
  have call: "save_call_of img k = Inr c"
    unfolding c_def qs_def by (rule save_call_of_eq [OF assms(2) ne assms(5)])
  have saved: "speed_up_gif fs p k = gif_save c"
    by (simp add: speed_up_gif_def Image_open_def assms(1) call)
  have durs: "duration c = qs" by (simp add: c_def)
  have len: "length (duration c) = length frs" by (simp add: durs qs_def)
  have at_i: "duration c ! i = 100 div k"
    using assms(3,4) by (simp add: durs qs_def dict_get_def)
  have z: "map (\<lambda>fr. (pixels fr, dict_get (info fr) ''duration'' 100 div k)) frs =
      zip (map pixels frs) qs"
    unfolding qs_def by (induction frs) simp_all
  have written: "\<exists>a. speed_up_gif fs p k = Inr a \<and> length (shown a) = length frs \<and>
      snd (shown a ! i) = 10 * (100 div k div 10)"
    if d: "distinct_adj (map pixels frs)" and r: "\<forall>q\<in>set (duration c). 0 \<le> q \<and> q < 655360"
  proof -
    have "map fst (zip (map pixels frs) qs) = map pixels frs"
      by (simp add: qs_def)
    then have m: "merge_identical (zip (map pixels frs) qs) = zip (map pixels frs) qs"
      using d by (intro merge_identical_distinct) simp
    have "\<forall>x\<in>set (zip (map pixels frs) qs). 0 \<le> snd x \<and> snd x < 655360"
      using r durs by (auto dest: set_zip_rightD)
    then have w: "write_durations (zip (map pixels frs) qs) =
        Inr (map (\<lambda>x. (fst x, 10 * (snd x div 10))) (zip (map pixels frs) qs))"
      by (rule write_durations_eq)
    have out: "speed_up_gif fs p k =
        Inr \<lparr>shown = map (\<lambda>x. (fst x, 10 * (snd x div 10))) (zip (map pixels frs) qs),
             loops = 0\<rparr>"
      using speed_up_gif_eq [of fs p img frs k, OF assms(1,2) ne assms(5)] m w by (simp add: z)
    have "snd (map (\<lambda>x. (fst x, 10 * (snd x div 10))) (zip (map pixels frs) qs) ! i) =
        10 * (100 div k div 10)"
      using assms(3) at_i durs len by simp
    then show ?thesis using out len durs by simp
  qed
  from call saved len at_i written show ?thesis by blast
qed

theorem missing_duration_read_as_100_witness:
  "gif_files ''untimed.gif'' = Some (Opens (decoded untimed_frames)) \<and>
   reads_as (decoded untimed_frames) untimed_frames \<and> 1 < length untimed_frames \<and>
   info (untimed_frames ! 1) ''duration'' = None \<and> (3 :: int) \<noteq> 0 \<and>
   (\<exists>c. save_call_of (decoded untimed_frames) 3 = Inr c \<and> duration c = [13, 33]) \<and>
   (\<exists>a. speed_up_gif gif_files ''untimed.gif'' 3 = Inr a \<and> snd (shown a ! 1) = 30)"
proof -
  have f: "gif_files ''untimed.gif'' = Some (Opens (decoded untimed_frames))"
    by (simp add: gif_files_def)
  have r: "reads_as (decoded untimed_frames) untimed_frames" by (rule reads_as_decoded)
  have i: "1 < length untimed_frames" by (simp add: untimed_frames_def)
  have m: "info (untimed_frames ! 1) ''duration'' = None" by (simp add: untimed_frames_def)
  have k: "(3 :: int) \<noteq> 0" by simp
  have n: "untimed_frames \<noteq> []" by (simp add: untimed_frames_def)
  have call: "save_call_of (decoded untimed_frames) 3 =
      Inr \<lparr>first_frame = hd untimed_frames, format = ''GIF'',
           append_images = tl untimed_frames, save_all = True, duration = [13, 33], loop = 0\<rparr>"
    by (subst save_call_of_eq [OF r n k]) (simp add: untimed_frames_def dict_get_def)
  from missing_duration_read_as_100
    [of gif_files "''untimed.gif''" "decoded untimed_frames" untimed_frames 1 3, OF f r i m k]
  obtain c where
    c: "save_call_of (decoded untimed_frames) 3 = Inr c"
      "distinct_adj (map pixels untimed_frames) \<and>
         (\<forall>q\<in>set (duration c). 0 \<le> q \<and> q < 655360) \<longrightarrow>
       (\<exists>a. speed_up_gif gif_files ''untimed.gif'' 3 = Inr a \<and>
          length (shown a) = length untimed_frames \<and>
          snd (shown a ! 1) = 10 * (100 div 3 div 10))"
    by blast
  have "c = \<lparr>first_frame = hd untimed_frames, format = ''GIF'',
      append_images = tl untimed_frames, save_all = True, duration = [13, 33], loop = 0\<rparr>"
    using c(1) call by simp
  then have d: "duration c = [13, 33]" by simp
  have "distinct_adj (map pixels untimed_frames)" by (simp add: untimed_frames_def)
  with c(2) d have "\<exists>a. speed_up_gif gif_files ''untimed.gif'' 3 = Inr a \<and>
      length (shown a) = length untimed_frames \<and> snd (shown a ! 1) = 30"
    by simp
  then have "\<exists>a. speed_up_gif gif_files ''untimed.gif'' 3 = Inr a \<and>
      snd (shown a ! 1) = 30"
    by blast
  with f r i m k c(1) d show ?thesis by blast
qed

text \<open>
  The claim as stated fails on what is written: at factor 3 the frame without a duration
  comes back with 30 ms, not 33, at factor 20 with 0 ms, and at factor -3 the writer raises.
\<close>

theorem written_default_is_not_the_quotient:
  "speed_up_gif gif_files ''untimed.gif'' 3 = Inr \<lparr>shown = [(1, 10), (2, 30)], loops = 0\<rparr> \<and>
   speed_up_gif gif_files ''untimed.gif'' 20 = Inr \<lparr>shown = [(1, 0), (2, 0)], loops = 0\<rparr> \<and>
   speed_up_gif gif_files ''untimed.gif'' (- 3) = Inl StructError"
proof -
  have u: "gif_files ''untimed.gif'' = Some (Opens (decoded untimed_frames))"
    by (simp add: gif_files_def)
  have "speed_up_gif gif_files ''untimed.gif'' 3 =
      Inr \<lparr>shown = [(1, 10), (2, 30)], loops = 0\<rparr>"
    by (subst speed_up_gif_eq [of gif_files "''untimed.gif''" "decoded untimed_frames"
          untimed_frames 3, OF u reads_as_decoded])
      (simp_all add: untimed_frames_def dict_get_def centiseconds_def)
  moreover have "speed_up_gif gif_files ''untimed.gif'' 20 =
      Inr \<lparr>shown = [(1, 0), (2, 0)], loops = 0\<rparr>"
    by (subst speed_up_gif_eq [of gif_files "''untimed.gif''" "decoded untimed_frames"
          untimed_frames 20, OF u reads_as_decoded])
      (simp_all add: untimed_frames_def dict_get_def centiseconds_def)
  moreover have "speed_up_gif gif_files ''untimed.gif'' (- 3) = Inl StructError"
    by (subst speed_up_gif_eq [of gif_files "''untimed.gif''" "decoded untimed_frames"
          untimed_frames "- 3", OF u reads_as_decoded])
      (simp_all add: untimed_frames_def dict_get_def centiseconds_def)
  ultimately show ?thesis by simp
qed

end
